theory Spec2Isabelle
  imports Main "HOL-Library.Word" "HOL-Library.Signed_Division"
begin

unbundle bit_operations_syntax

text \<open>
  A model of \<open>src/main.cpp\<close>, the BLE Current Time Service sketch, in the revision
  that accepts writes to the Current Time characteristic (the one with
  \<open>currentTimeWrittenHandler\<close>). Global variables become the fields of one state
  record that every function takes and returns; what a function reads from the board
  (\<open>millis()\<close>, the result of a BLE call) is an argument.
\<close>

section \<open>Data model\<close>

text \<open>
  The sketch keeps its clock in fixed-width unsigned integers: \<open>uint8_t\<close>,
  \<open>uint16_t\<close> and \<open>unsigned long\<close> (32 bits on the boards ArduinoBLE runs on).
  They are words here, so every addition and subtraction wraps as it does on the board.
\<close>

type_synonym u8 = "8 word"
type_synonym u16 = "16 word"
type_synonym u32 = "32 word"

text \<open>\<open>struct DateTime\<close>; \<open>dayOfWeek\<close> is 1 = Monday ... 7 = Sunday.\<close>

record DateTime =
  year :: u16
  month :: u8
  day :: u8
  hour :: u8
  minute :: u8
  second :: u8
  dayOfWeek :: u8

text \<open>A \<open>BLEDevice\<close> is known to the sketch by its address only.\<close>

type_synonym BLEDevice = string

text \<open>The three characteristics of the Current Time Service.\<close>

datatype characteristic = currentTimeChar | localTimeInfoChar | refTimeInfoChar

text \<open>
  Calls into the BLE stack that the handlers make, in the order they are made.
  \<open>WriteValue c bs\<close> is \<open>c.writeValue(bs, sizeof(bs))\<close>.
\<close>

datatype ble_call = WriteValue characteristic "u8 list" | StopAdvertise | Advertise

text \<open>
  What the sketch prints on \<open>Serial\<close>, one constructor for each message of the
  functions modelled here; the argument is the value printed with the message.
\<close>

datatype serial_msg =
    ErrorWritingCurrentTime
  | WrittenBy BLEDevice
  | RawDataReceived "u8 list"
  | InternalTimeUpdated DateTime
  | InvalidTimeDataFormat
  | IncorrectLength nat
  | ConnectedEventFor BLEDevice
  | ConnectionEstablished
  | InitialCharacteristicsSent
  | DuplicateConnectIgnored
  | DisconnectedEventFor BLEDevice
  | ConnectionTerminated
  | StoppedAdvertising
  | RestartedAdvertising
  | FailedToRestartAdvertising
  | DisconnectIgnored

text \<open>
  The global variables of the sketch, the level of \<open>LED_PIN\<close>, whether the task
  \<open>tLedBlink\<close> is enabled, and the two output streams (BLE stack and serial port).
\<close>

record watch =
  currentDateTime :: DateTime
  lastTimeUpdateMillis :: u32
  centralConnected :: bool
  connectedCentral :: BLEDevice
  ledState :: bool
  ledPin :: bool
  tLedBlinkEnabled :: bool
  bleCalls :: "ble_call list"
  serial :: "serial_msg list"

section \<open>Calendar clock\<close>

definition daysInMonth :: "u16 \<Rightarrow> u8 \<Rightarrow> u8" where
  "daysInMonth y m =
     (if m = 4 \<or> m = 6 \<or> m = 9 \<or> m = 11 then 30
      else if m = 2 then
        (let isLeap = ((y mod 4 = 0 \<and> y mod 100 \<noteq> 0) \<or> y mod 400 = 0)
         in if isLeap then 29 else 28)
      else 31)"

lemma daysInMonth_ge_28: "28 \<le> daysInMonth y m"
  by (simp add: daysInMonth_def Let_def)

lemma daysInMonth_le_31: "daysInMonth y m \<le> 31"
  by (simp add: daysInMonth_def Let_def)

text \<open>
  The \<open>while (currentDateTime.day > monthDays)\<close> loop of \<open>updateInternalTime\<close>.
  \<open>monthDays\<close> is recomputed from the current year and month before every test.
\<close>

function carryDays :: "DateTime \<Rightarrow> DateTime" where
  "carryDays dt =
     (let monthDays = daysInMonth (year dt) (month dt) in
      if day dt > monthDays then
        (let dt1 = dt\<lparr>day := day dt - monthDays, month := month dt + 1\<rparr>;
             dt2 = (if month dt1 > 12 then dt1\<lparr>month := 1, year := year dt1 + 1\<rparr> else dt1)
         in carryDays dt2)
      else dt)"
  by pat_completeness auto

lemma carryDays_decreases:
  fixes d md :: u8
  assumes "md < d" and "28 \<le> md"
  shows "unat (d - md) < unat d"
proof -
  have le: "md \<le> d" using assms(1) by simp
  have pos: "0 < unat md"
    using assms(2) by (simp add: word_le_nat_alt)
  have "unat (d - md) = unat d - unat md"
    using le by (rule unat_sub)
  moreover have "unat md \<le> unat d"
    using le by (simp add: word_le_nat_alt)
  ultimately show ?thesis using pos by arith
qed

termination carryDays
proof (relation "measure (\<lambda>dt. unat (day dt))")
  show "wf (measure (\<lambda>dt. unat (day dt)))" by simp
next
  fix dt :: DateTime and monthDays dt1 dt2
  assume md: "monthDays = daysInMonth (year dt) (month dt)"
    and gt: "monthDays < day dt"
    and d1: "dt1 = dt\<lparr>day := day dt - monthDays, month := month dt + 1\<rparr>"
    and d2: "dt2 = (if 12 < month dt1 then dt1\<lparr>month := 1, year := year dt1 + 1\<rparr> else dt1)"
  have "day dt2 = day dt - monthDays"
    using d1 d2 by simp
  moreover have "unat (day dt - monthDays) < unat (day dt)"
    using gt md by (intro carryDays_decreases) (simp_all add: daysInMonth_ge_28)
  ultimately show "(dt2, dt) \<in> measure (\<lambda>dt. unat (day dt))"
    by simp
qed

declare carryDays.simps [simp del]

text \<open>The nested rollover cascade that follows \<open>currentDateTime.second += elapsedSeconds\<close>.\<close>

definition rollover :: "DateTime \<Rightarrow> DateTime" where
  "rollover dt =
     (if second dt \<ge> 60 then
        (let dt1 = dt\<lparr>minute := minute dt + second dt div 60\<rparr>;
             dt2 = dt1\<lparr>second := second dt1 mod 60\<rparr>
         in if minute dt2 \<ge> 60 then
              (let dt3 = dt2\<lparr>hour := hour dt2 + minute dt2 div 60\<rparr>;
                   dt4 = dt3\<lparr>minute := minute dt3 mod 60\<rparr>
               in if hour dt4 \<ge> 24 then
                    (let daysElapsed = hour dt4 div 24;
                         dt5 = dt4\<lparr>day := day dt4 + daysElapsed\<rparr>;
                         dt6 = dt5\<lparr>hour := hour dt5 mod 24\<rparr>;
                         dt7 = dt6\<lparr>dayOfWeek :=
                                 word_of_int (((uint (dayOfWeek dt6) - 1 + uint daysElapsed) smod 7) + 1)\<rparr>
                     in carryDays dt7)
                  else dt4)
            else dt2)
      else dt)"

text \<open>
  \<open>updateInternalTime\<close>; the argument \<open>currentMillis\<close> is what \<open>millis()\<close> returns.
  \<open>second\<close> is a \<open>uint8_t\<close> and \<open>elapsedSeconds\<close> an \<open>unsigned long\<close>: the sum is
  formed in 32 bits and stored back in 8.
\<close>

definition updateInternalTime :: "u32 \<Rightarrow> watch \<Rightarrow> watch" where
  "updateInternalTime currentMillis s =
     (if currentMillis - lastTimeUpdateMillis s \<ge> 1000 then
        (let elapsedSeconds = (currentMillis - lastTimeUpdateMillis s) div 1000;
             s1 = s\<lparr>lastTimeUpdateMillis := lastTimeUpdateMillis s + elapsedSeconds * 1000\<rparr>;
             dt = currentDateTime s1;
             dt1 = dt\<lparr>second := ucast ((ucast (second dt) :: u32) + elapsedSeconds)\<rparr>
         in s1\<lparr>currentDateTime := rollover dt1\<rparr>)
      else s)"

section \<open>Characteristic codec\<close>

text \<open>The array \<open>timeData\<close> that \<open>writeCurrentTime\<close> fills.\<close>

definition timeData :: "DateTime \<Rightarrow> u8 list" where
  "timeData dt =
     [ucast (year dt AND 0xFF),
      ucast (drop_bit 8 (year dt) AND 0xFF),
      month dt, day dt, hour dt, minute dt, second dt, dayOfWeek dt,
      0,
      1]"

text \<open>
  \<open>writeCurrentTime\<close>; \<open>ok\<close> is what \<open>currentTimeChar.writeValue\<close> returns.
\<close>

definition writeCurrentTime :: "bool \<Rightarrow> watch \<Rightarrow> watch" where
  "writeCurrentTime ok s =
     (let s1 = s\<lparr>bleCalls := bleCalls s @ [WriteValue currentTimeChar (timeData (currentDateTime s))]\<rparr>
      in if \<not> ok then s1\<lparr>serial := serial s1 @ [ErrorWritingCurrentTime]\<rparr> else s1)"

definition writeLocalTimeInfo :: "watch \<Rightarrow> watch" where
  "writeLocalTimeInfo s =
     (let timeZone = (32 :: u8); dstOffset = (0 :: u8);
          localTimeData = [timeZone, dstOffset]
      in s\<lparr>bleCalls := bleCalls s @ [WriteValue localTimeInfoChar localTimeData]\<rparr>)"

definition writeRefTimeInfo :: "watch \<Rightarrow> watch" where
  "writeRefTimeInfo s =
     (let refTimeData = [4, 254, 0, 0 :: u8]
      in s\<lparr>bleCalls := bleCalls s @ [WriteValue refTimeInfoChar refTimeData]\<rparr>)"

text \<open>
  The parsing step of \<open>currentTimeWrittenHandler\<close>: the candidate read from the
  bytes \<open>data[0]\<close> ... \<open>data[7]\<close>. The year is \<open>data[0] | (data[1] << 8)\<close>, formed
  in \<open>int\<close> and stored in a \<open>uint16_t\<close>. \<open>data[8]\<close> and \<open>data[9]\<close> are not read.
\<close>

definition parseCurrentTime :: "u8 list \<Rightarrow> DateTime" where
  "parseCurrentTime data =
     \<lparr>year = ucast ((ucast (data ! 0) :: u32) OR push_bit 8 (ucast (data ! 1) :: u32)),
      month = data ! 2,
      day = data ! 3,
      hour = data ! 4,
      minute = data ! 5,
      second = data ! 6,
      dayOfWeek = data ! 7\<rparr>"

text \<open>The "basic validation" condition of \<open>currentTimeWrittenHandler\<close>.\<close>

definition validFields :: "DateTime \<Rightarrow> bool" where
  "validFields c \<longleftrightarrow>
     month c \<ge> 1 \<and> month c \<le> 12 \<and> day c \<ge> 1 \<and> day c \<le> 31 \<and>
     hour c \<le> 23 \<and> minute c \<le> 59 \<and> second c \<le> 59 \<and>
     dayOfWeek c \<ge> 1 \<and> dayOfWeek c \<le> 7"

section \<open>BLE event handlers\<close>

text \<open>
  \<open>currentTimeWrittenHandler\<close>. \<open>val\<close> is \<open>characteristic.value()\<close>, its length
  \<open>characteristic.valueLength()\<close>, and \<open>now\<close> is what \<open>millis()\<close> returns. The bytes
  are read by index only under the length test, as in the source.
\<close>

definition currentTimeWrittenHandler :: "BLEDevice \<Rightarrow> u8 list \<Rightarrow> u32 \<Rightarrow> watch \<Rightarrow> watch" where
  "currentTimeWrittenHandler central val now s =
     (let s1 = s\<lparr>serial := serial s @ [WrittenBy central]\<rparr> in
      if length val = 10 then
        (let s2 = s1\<lparr>serial := serial s1 @ [RawDataReceived val]\<rparr>;
             c = parseCurrentTime val
         in if validFields c then
              (let s3 = s2\<lparr>currentDateTime := c\<rparr>;
                   s4 = s3\<lparr>lastTimeUpdateMillis := now\<rparr>
               in s4\<lparr>serial := serial s4 @ [InternalTimeUpdated (currentDateTime s4)]\<rparr>)
            else s2\<lparr>serial := serial s2 @ [InvalidTimeDataFormat]\<rparr>)
      else s1\<lparr>serial := serial s1 @ [IncorrectLength (length val), RawDataReceived val]\<rparr>)"

text \<open>
  \<open>blePeripheralConnectHandler\<close>; \<open>ok\<close> is the result of the \<open>writeValue\<close> call in
  \<open>writeCurrentTime\<close>. The \<open>delay\<close> calls change nothing that is modelled.
\<close>

definition blePeripheralConnectHandler :: "BLEDevice \<Rightarrow> bool \<Rightarrow> watch \<Rightarrow> watch" where
  "blePeripheralConnectHandler central ok s =
     (let s1 = s\<lparr>serial := serial s @ [ConnectedEventFor central]\<rparr>;
          s2 = s1\<lparr>ledPin := True\<rparr>;
          s3 = s2\<lparr>ledState := True\<rparr>;
          s4 = s3\<lparr>tLedBlinkEnabled := False\<rparr>
      in if \<not> centralConnected s4 then
           (let s5 = s4\<lparr>centralConnected := True\<rparr>;
                s6 = s5\<lparr>connectedCentral := central\<rparr>;
                s7 = s6\<lparr>serial := serial s6 @ [ConnectionEstablished]\<rparr>;
                s8 = writeCurrentTime ok s7;
                s9 = writeLocalTimeInfo s8;
                s10 = writeRefTimeInfo s9
            in s10\<lparr>serial := serial s10 @ [InitialCharacteristicsSent]\<rparr>)
         else s4\<lparr>serial := serial s4 @ [DuplicateConnectIgnored]\<rparr>)"

text \<open>
  \<open>blePeripheralDisconnectHandler\<close>; \<open>advOk\<close> is the result of \<open>BLE.advertise()\<close>.
\<close>

definition blePeripheralDisconnectHandler :: "BLEDevice \<Rightarrow> bool \<Rightarrow> watch \<Rightarrow> watch" where
  "blePeripheralDisconnectHandler central advOk s =
     (let s1 = s\<lparr>serial := serial s @ [DisconnectedEventFor central]\<rparr>;
          s2 = s1\<lparr>ledPin := False\<rparr>;
          s3 = s2\<lparr>ledState := False\<rparr>
      in if centralConnected s3 then
           (let s4 = s3\<lparr>centralConnected := False\<rparr>;
                s5 = s4\<lparr>tLedBlinkEnabled := True\<rparr>;
                s6 = s5\<lparr>serial := serial s5 @ [ConnectionTerminated]\<rparr>;
                s7 = s6\<lparr>bleCalls := bleCalls s6 @ [StopAdvertise]\<rparr>;
                s8 = s7\<lparr>serial := serial s7 @ [StoppedAdvertising]\<rparr>;
                s9 = s8\<lparr>bleCalls := bleCalls s8 @ [Advertise]\<rparr>
            in if advOk then s9\<lparr>serial := serial s9 @ [RestartedAdvertising]\<rparr>
               else s9\<lparr>serial := serial s9 @ [FailedToRestartAdvertising]\<rparr>)
         else s3\<lparr>serial := serial s3 @ [DisconnectIgnored]\<rparr>)"

section \<open>State at power-on\<close>

text \<open>
  The initialisers of the global variables: 2024-01-01 00:00:00, a Monday, no central
  connected. \<open>tLedBlink\<close> is created enabled, \<open>setup\<close> drives \<open>LED_PIN\<close> low, and
  nothing has been sent yet. The default-constructed \<open>BLEDevice\<close> has the empty address.
\<close>

definition initialWatch :: watch where
  "initialWatch =
     \<lparr>currentDateTime =
        \<lparr>year = 2024, month = 1, day = 1, hour = 0, minute = 0, second = 0, dayOfWeek = 1\<rparr>,
      lastTimeUpdateMillis = 0,
      centralConnected = False,
      connectedCentral = [],
      ledState = False,
      ledPin = False,
      tLedBlinkEnabled = True,
      bleCalls = [],
      serial = []\<rparr>"

section \<open>Calling the clock repeatedly\<close>

text \<open>
  The caller of \<open>updateInternalTime\<close>: the millisecond counter stands at \<open>c\<close>, moves
  forward by each delta of the list in turn, and \<open>updateInternalTime\<close> runs after each
  move, as the periodic tasks do. One call with delta \<open>d\<close> is \<open>advanceEach c [d]\<close>.
\<close>

primrec advanceEach :: "u32 \<Rightarrow> nat list \<Rightarrow> watch \<Rightarrow> watch" where
  "advanceEach c [] s = s"
| "advanceEach c (d # ds) s =
     advanceEach (c + of_nat d) ds (updateInternalTime (c + of_nat d) s)"

section \<open>The clock at rest\<close>

text \<open>
  The range conditions on a DateTime that is not in the middle of an update:
  month 1 to 12, day 1 to the length of the month, hour below 24, minute and second
  below 60, day of week 1 to 7.
\<close>

definition atRest :: "DateTime \<Rightarrow> bool" where
  "atRest dt \<longleftrightarrow>
     1 \<le> month dt \<and> month dt \<le> 12 \<and>
     1 \<le> day dt \<and> day dt \<le> daysInMonth (year dt) (month dt) \<and>
     hour dt < 24 \<and> minute dt < 60 \<and> second dt < 60 \<and>
     1 \<le> dayOfWeek dt \<and> dayOfWeek dt \<le> 7"

section \<open>Notions used in the proofs\<close>

text \<open>
  These are not part of the sketch. \<open>addSeconds\<close> names the step of
  \<open>updateInternalTime\<close> that adds the elapsed seconds and runs the cascade;
  \<open>secondsOfDay\<close> reads hour, minute and second as one number (the second field may
  hold up to 255 in the middle of an update); \<open>withTime\<close> writes such a number back
  into the three fields; \<open>nextDay\<close> is the day carry of the cascade.
\<close>

definition addSeconds :: "u32 \<Rightarrow> DateTime \<Rightarrow> DateTime" where
  "addSeconds e dt = rollover (dt\<lparr>second := ucast ((ucast (second dt) :: u32) + e)\<rparr>)"

definition secondsOfDay :: "DateTime \<Rightarrow> nat" where
  "secondsOfDay dt = (unat (hour dt) * 60 + unat (minute dt)) * 60 + unat (second dt)"

definition withTime :: "nat \<Rightarrow> DateTime \<Rightarrow> DateTime" where
  "withTime t dt =
     dt\<lparr>hour := of_nat (t div 60 div 60), minute := of_nat (t div 60 mod 60),
        second := of_nat (t mod 60)\<rparr>"

definition nextDay :: "DateTime \<Rightarrow> DateTime" where
  "nextDay dt =
     carryDays (dt\<lparr>day := day dt + 1,
                   dayOfWeek := word_of_int ((uint (dayOfWeek dt) - 1 + 1) smod 7 + 1)\<rparr>)"

section \<open>Auxiliary lemmas\<close>

subsection \<open>Bytes of a 16-bit year\<close>

lemma and_0xFF: "(w :: 'a::len word) AND 0xFF = take_bit 8 w"
proof -
  have "(0xFF :: 'a word) = mask 8"
    by (simp add: mask_eq_exp_minus_1)
  then show ?thesis
    by (simp only: take_bit_eq_mask)
qed

lemma unat_low_byte: "unat (ucast (y AND 0xFF :: u16) :: u8) = unat y mod 256"
proof -
  have "unat (ucast (take_bit 8 y) :: u8) = take_bit 8 (take_bit 8 (unat y))"
    by (simp add: unsigned_ucast_eq unsigned_take_bit_eq)
  also have "\<dots> = unat y mod 256"
    by (simp add: take_bit_eq_mod)
  finally show ?thesis
    by (simp only: and_0xFF)
qed

lemma unat_high_byte: "unat (ucast (drop_bit 8 (y::u16) AND 0xFF) :: u8) = unat y div 256"
proof -
  have lt: "unat y < 65536"
    using unsigned_less [of y] by simp
  have "unat (ucast (take_bit 8 (drop_bit 8 y)) :: u8) = take_bit 8 (take_bit 8 (drop_bit 8 (unat y)))"
    by (simp add: unsigned_ucast_eq unsigned_take_bit_eq unat_drop_bit_eq)
  also have "\<dots> = (unat y div 256) mod 256"
    by (simp add: take_bit_eq_mod drop_bit_eq_div)
  also have "\<dots> = unat y div 256"
    using lt by simp
  finally show ?thesis
    by (simp only: and_0xFF)
qed

subsection \<open>Decoding the year\<close>

lemma year_roundtrip:
  "ucast ((ucast (ucast (y AND 0xFF) :: u8) :: u32)
          OR push_bit 8 (ucast (ucast (drop_bit 8 y AND 0xFF) :: u8) :: u32)) = (y::u16)"
  by (rule bit_word_eqI) (auto simp: bit_simps and_0xFF)

lemma unat_u16_of_bytes:
  fixes a b :: u8
  shows "unat (ucast ((ucast a :: u32) OR push_bit 8 (ucast b :: u32)) :: u16)
         = unat a + 256 * unat b"
proof -
  have disj: "(ucast a :: u16) AND push_bit 8 (ucast b) = 0"
    by (rule bit_word_eqI) (auto simp: bit_simps dest: bit_imp_le_length)
  have "(ucast ((ucast a :: u32) OR push_bit 8 (ucast b :: u32)) :: u16)
        = ucast a OR push_bit 8 (ucast b)"
    by (rule bit_word_eqI) (auto simp: bit_simps)
  also have "\<dots> = ucast a + push_bit 8 (ucast b)"
    using disj by (simp add: disjunctive_add_eq_or)
  finally have eq: "(ucast ((ucast a :: u32) OR push_bit 8 (ucast b :: u32)) :: u16)
        = ucast a + 256 * ucast b"
    by (simp add: push_bit_eq_mult)
  have la: "unat a < 256" and lb: "unat b < 256"
    using unsigned_less [of a] unsigned_less [of b] by simp_all
  have ua: "unat (ucast a :: u16) = unat a" and ub: "unat (ucast b :: u16) = unat b"
    using la lb by (simp_all add: unsigned_ucast_eq take_bit_eq_mod)
  have "unat (ucast a + 256 * ucast b :: u16) = (unat a + 256 * unat b) mod 65536"
    by (simp add: unat_word_ariths ua ub mod_simps)
  also have "\<dots> = unat a + 256 * unat b"
    using la lb by simp
  finally show ?thesis
    by (simp only: eq)
qed

lemma unat_year_parseCurrentTime:
  "unat (year (parseCurrentTime val)) = unat (val ! 0) + 256 * unat (val ! 1)"
  by (simp only: parseCurrentTime_def DateTime.simps unat_u16_of_bytes)

subsection \<open>Validation in terms of numbers\<close>

lemma validFields_unat:
  "validFields c \<longleftrightarrow>
     1 \<le> unat (month c) \<and> unat (month c) \<le> 12 \<and> 1 \<le> unat (day c) \<and> unat (day c) \<le> 31 \<and>
     unat (hour c) \<le> 23 \<and> unat (minute c) \<le> 59 \<and> unat (second c) \<le> 59 \<and>
     1 \<le> unat (dayOfWeek c) \<and> unat (dayOfWeek c) \<le> 7"
  by (simp add: validFields_def word_le_nat_alt)

lemma validFields_parseCurrentTime:
  "validFields (parseCurrentTime val) \<longleftrightarrow>
     1 \<le> unat (val ! 2) \<and> unat (val ! 2) \<le> 12 \<and> 1 \<le> unat (val ! 3) \<and> unat (val ! 3) \<le> 31 \<and>
     unat (val ! 4) \<le> 23 \<and> unat (val ! 5) \<le> 59 \<and> unat (val ! 6) \<le> 59 \<and>
     1 \<le> unat (val ! 7) \<and> unat (val ! 7) \<le> 7"
  by (simp add: validFields_unat parseCurrentTime_def)

lemma updateInternalTime_same_instant:
  "lastTimeUpdateMillis s = now \<Longrightarrow> updateInternalTime now s = s"
  by (simp add: updateInternalTime_def)

lemma currentTimeWrittenHandler_accept:
  assumes "length val = 10" and "validFields (parseCurrentTime val)"
  shows "currentTimeWrittenHandler central val now s =
           s\<lparr>currentDateTime := parseCurrentTime val,
             lastTimeUpdateMillis := now,
             serial := serial s @ [WrittenBy central, RawDataReceived val,
                                   InternalTimeUpdated (parseCurrentTime val)]\<rparr>"
  using assms by (simp add: currentTimeWrittenHandler_def Let_def)

lemma currentTimeWrittenHandler_reject:
  assumes "length val = 10" and "\<not> validFields (parseCurrentTime val)"
  shows "currentTimeWrittenHandler central val now s =
           s\<lparr>serial := serial s @ [WrittenBy central, RawDataReceived val, InvalidTimeDataFormat]\<rparr>"
  using assms by (simp add: currentTimeWrittenHandler_def Let_def)

subsection \<open>Small words\<close>

lemma u8_between_1_7:
  fixes w :: u8
  assumes "1 \<le> w" and "w \<le> 7"
  shows "w = 1 \<or> w = 2 \<or> w = 3 \<or> w = 4 \<or> w = 5 \<or> w = 6 \<or> w = 7"
proof -
  have "1 \<le> unat w" "unat w \<le> 7"
    using assms by (simp_all add: word_le_nat_alt)
  then have "unat w = 1 \<or> unat w = 2 \<or> unat w = 3 \<or> unat w = 4
             \<or> unat w = 5 \<or> unat w = 6 \<or> unat w = 7"
    by arith
  moreover have "\<And>n. unat w = n \<Longrightarrow> w = of_nat n"
    by auto
  ultimately show ?thesis
    by fastforce
qed

lemma dayOfWeek_next:
  fixes w :: u8
  assumes "1 \<le> w" and "w \<le> 7"
  shows "(word_of_int ((uint w - 1 + 1) smod 7 + 1) :: u8) = (if w = 7 then 1 else w + 1)"
  using u8_between_1_7 [OF assms] by (auto simp: signed_modulo_int_def)

subsection \<open>Carries in 8-bit fields\<close>

lemmas u8_nat = word_le_nat_alt word_less_nat_alt word_unat_eq_iff unat_word_ariths unat_div unat_mod

lemma unat_u8_less: "unat (x :: u8) < 256"
  using unsigned_less [of x] by simp

lemma u8_div_60_le: "(x :: u8) div 60 \<le> 4"
  using unat_u8_less [of x] by (simp add: u8_nat)

lemma u8_mod_60_less: "(x :: u8) mod 60 < 60"
  by (simp add: u8_nat)

lemma u8_mod_24_less: "(x :: u8) mod 24 < 24"
  by (simp add: u8_nat)

lemma minute_carry:
  fixes m c :: u8
  assumes "m < 60" and "c \<le> 4" and "60 \<le> m + c"
  shows "(m + c) div 60 = 1"
  using assms by (simp add: u8_nat)

lemma hour_carry:
  fixes h :: u8
  assumes "h < 24" and "24 \<le> h + 1"
  shows "h + 1 = 24"
  using assms by (simp add: u8_nat)

lemma month_next:
  fixes m :: u8
  assumes "1 \<le> m" and "m \<le> 12"
  shows "(12 < m + 1 \<longrightarrow> m = 12) \<and> (\<not> 12 < m + 1 \<longrightarrow> 1 \<le> m + 1 \<and> m + 1 \<le> 12)"
  using assms by (simp add: u8_nat)

lemma day_overflow:
  fixes d md :: u8
  assumes "md < d" and "unat d \<le> unat md + 1"
  shows "d - md = 1"
proof -
  have "md \<le> d" using assms(1) by simp
  then have "unat (d - md) = unat d - unat md"
    by (rule unat_sub)
  moreover have "unat md < unat d"
    using assms(1) by (simp add: word_less_nat_alt)
  ultimately have "unat (d - md) = 1"
    using assms(2) by arith
  then show ?thesis
    by (simp add: word_unat_eq_iff)
qed

lemma smod_nonneg:
  fixes k :: int
  assumes "0 \<le> k"
  shows "k smod 7 = k mod 7"
  using assms by (cases "k = 0") (simp_all add: signed_modulo_int_def sgn_if)

lemma dayOfWeek_in_range:
  fixes w e :: u8
  shows "1 \<le> (word_of_int ((uint w - 1 + 1) smod 7 + 1) :: u8)
       \<and> (word_of_int ((uint w - 1 + 1) smod 7 + 1) :: u8) \<le> 7"
proof -
  have eq: "(uint w - 1 + 1) smod 7 = uint w mod 7"
    using smod_nonneg [of "uint w"] by simp
  have "0 \<le> uint w mod 7" "uint w mod 7 < 7"
    by simp_all
  then have "uint w mod 7 + 1 \<in> {1, 2, 3, 4, 5, 6, 7}"
    by auto
  then show ?thesis
    unfolding eq by auto
qed

subsection \<open>The month loop\<close>

lemma daysInMonth_ge_1: "1 \<le> daysInMonth y m"
  using daysInMonth_ge_28 [of y m] by (simp add: u8_nat)

lemma daysInMonth_not_less_1: "\<not> daysInMonth y m < 1"
  using daysInMonth_ge_28 [of y m] by (simp add: u8_nat)

lemma daysInMonth_neq_0: "daysInMonth y m \<noteq> 0"
  by (simp add: daysInMonth_def Let_def)

lemma carryDays_no_carry:
  assumes "\<not> daysInMonth (year dt) (month dt) < day dt"
  shows "carryDays dt = dt"
  using assms by (simp add: carryDays.simps [of dt])

lemma carryDays_one_month:
  assumes gt: "daysInMonth (year dt) (month dt) < day dt"
    and le: "unat (day dt) \<le> unat (daysInMonth (year dt) (month dt)) + 1"
  shows "carryDays dt =
           (if 12 < month dt + 1 then dt\<lparr>day := 1, month := 1, year := year dt + 1\<rparr>
            else dt\<lparr>day := 1, month := month dt + 1\<rparr>)"
proof -
  have one: "day dt - daysInMonth (year dt) (month dt) = 1"
    using gt le by (rule day_overflow)
  note small = daysInMonth_not_less_1 daysInMonth_neq_0
  show ?thesis
  proof (cases "12 < month dt + 1")
    case True
    have "carryDays dt = carryDays (dt\<lparr>day := 1, month := 1, year := year dt + 1\<rparr>)"
      using gt True one by (simp add: carryDays.simps [of dt])
    also have "\<dots> = dt\<lparr>day := 1, month := 1, year := year dt + 1\<rparr>"
      by (rule carryDays_no_carry) (simp add: small)
    finally show ?thesis using True by simp
  next
    case False
    have "carryDays dt = carryDays (dt\<lparr>day := 1, month := month dt + 1\<rparr>)"
      using gt False one by (simp add: carryDays.simps [of dt])
    also have "\<dots> = dt\<lparr>day := 1, month := month dt + 1\<rparr>"
      by (rule carryDays_no_carry) (simp add: small)
    finally show ?thesis using False by simp
  qed
qed

lemma carryDays_atRest:
  assumes "1 \<le> month dt" and "month dt \<le> 12" and "1 \<le> day dt"
    and le: "unat (day dt) \<le> unat (daysInMonth (year dt) (month dt)) + 1"
    and "hour dt < 24" and "minute dt < 60" and "second dt < 60"
    and "1 \<le> dayOfWeek dt" and "dayOfWeek dt \<le> 7"
  shows "atRest (carryDays dt)"
proof (cases "daysInMonth (year dt) (month dt) < day dt")
  case False
  then have "carryDays dt = dt" by (rule carryDays_no_carry)
  moreover have "day dt \<le> daysInMonth (year dt) (month dt)"
    using False by simp
  ultimately show ?thesis
    using assms by (simp add: atRest_def)
next
  case True
  note eq = carryDays_one_month [OF True le]
  note d1 = daysInMonth_ge_1 daysInMonth_neq_0
  show ?thesis
    using assms(1,2,5-) month_next [OF assms(1,2)] by (simp add: eq atRest_def d1)
qed

subsection \<open>The rollover cascade keeps the ranges\<close>

lemma rollover_atRest:
  assumes mo: "1 \<le> month dt" "month dt \<le> 12"
    and da: "1 \<le> day dt" "day dt \<le> daysInMonth (year dt) (month dt)"
    and ho: "hour dt < 24" and mi: "minute dt < 60"
    and dw: "1 \<le> dayOfWeek dt" "dayOfWeek dt \<le> 7"
  shows "atRest (rollover dt)"
proof (cases "60 \<le> second dt")
  case False
  then have "second dt < 60" by simp
  then show ?thesis
    using assms False by (simp add: rollover_def atRest_def)
next
  case sec: True
  let ?c = "second dt div 60"
  have c: "?c \<le> 4" by (rule u8_div_60_le)
  have r: "second dt mod 60 < 60" by (rule u8_mod_60_less)
  show ?thesis
  proof (cases "60 \<le> minute dt + ?c")
    case False
    then have "minute dt + ?c < 60" by simp
    then show ?thesis
      using assms sec False r by (simp add: rollover_def atRest_def Let_def)
  next
    case min: True
    have one: "(minute dt + ?c) div 60 = 1"
      using mi c min by (rule minute_carry)
    have r2: "(minute dt + ?c) mod 60 < 60" by (rule u8_mod_60_less)
    show ?thesis
    proof (cases "24 \<le> hour dt + 1")
      case False
      then have "hour dt + 1 < 24" by simp
      then show ?thesis
        using assms sec min False r r2 one by (simp add: rollover_def atRest_def Let_def)
    next
      case hr: True
      have h24: "hour dt + 1 = 24"
        using ho hr by (rule hour_carry)
      let ?dt7 = "dt\<lparr>second := second dt mod 60, minute := (minute dt + ?c) mod 60,
                     day := day dt + 1, hour := 0,
                     dayOfWeek := word_of_int ((uint (dayOfWeek dt) - 1 + 1) smod 7 + 1)\<rparr>"
      have eq: "rollover dt = carryDays ?dt7"
        using sec min hr one h24 by (simp add: rollover_def Let_def)
      have dle: "unat (day dt) \<le> unat (daysInMonth (year dt) (month dt))"
        using da(2) by (simp add: word_le_nat_alt)
      have d31: "unat (daysInMonth (year dt) (month dt)) \<le> 31"
        using daysInMonth_le_31 [of "year dt" "month dt"] by (simp add: word_le_nat_alt)
      have dsucc: "unat (day dt + 1) = unat (day dt) + 1"
        using dle d31 by (simp add: unat_word_ariths)
      have "atRest (carryDays ?dt7)"
      proof (rule carryDays_atRest)
        show "1 \<le> day ?dt7"
          using dsucc by (simp add: word_le_nat_alt)
        show "unat (day ?dt7) \<le> unat (daysInMonth (year ?dt7) (month ?dt7)) + 1"
          using dsucc dle by simp
        show "1 \<le> dayOfWeek ?dt7" "dayOfWeek ?dt7 \<le> 7"
          using dayOfWeek_in_range [of "dayOfWeek dt"] by simp_all
      qed (use mo r r2 in simp_all)
      then show ?thesis
        by (simp only: eq)
    qed
  qed
qed

subsection \<open>Elapsed seconds that fit the 8-bit second field\<close>

lemma div_mod_60:
  fixes k s :: nat
  assumes "s < 60"
  shows "(k * 60 + s) div 60 = k" and "(k * 60 + s) mod 60 = s"
  using assms by simp_all

lemma withTime_normal:
  assumes "m < 60" and "s < 60"
  shows "withTime ((h * 60 + m) * 60 + s) dt
         = dt\<lparr>hour := of_nat h, minute := of_nat m, second := of_nat s\<rparr>"
  unfolding withTime_def div_mod_60 [OF assms(2)] div_mod_60 [OF assms(1)] ..

lemma withTime_date [simp]:
  "year (withTime t dt) = year dt" "month (withTime t dt) = month dt"
  "day (withTime t dt) = day dt" "dayOfWeek (withTime t dt) = dayOfWeek dt"
  by (simp_all add: withTime_def)

lemma withTime_normal_next_day:
  assumes "m < 60" and "s < 60" and "t = ((24 * 60 + m) * 60 + s)"
  shows "withTime (t - 86400) dt
         = dt\<lparr>hour := 0, minute := of_nat m, second := of_nat s\<rparr>"
proof -
  have "t - 86400 = (0 * 60 + m) * 60 + s"
    using assms(3) by simp
  then show ?thesis
    using withTime_normal [OF assms(1,2), of 0 dt] by simp
qed

lemma withTime_withTime: "withTime t (withTime t' dt) = withTime t dt"
  by (simp add: withTime_def)

lemma withTime_second_update: "withTime t (dt\<lparr>second := x\<rparr>) = withTime t dt"
  by (simp add: withTime_def)

lemma day_length_div: "t < 86400 \<longleftrightarrow> t div 60 div 60 < (24 :: nat)"
proof -
  have "t div 60 div 60 = t div 3600"
    by (simp add: div_mult2_eq [symmetric])
  then show ?thesis
    by (simp add: div_less_iff_less_mult)
qed

lemma secondsOfDay_withTime:
  assumes "t < 86400"
  shows "secondsOfDay (withTime t dt) = t"
proof -
  have h: "t div 60 div 60 < 24"
    using assms by (simp only: day_length_div)
  have "unat (of_nat (t div 60 div 60) :: u8) = t div 60 div 60"
    using h by (simp add: unat_of_nat)
  moreover have "unat (of_nat (t div 60 mod 60) :: u8) = t div 60 mod 60"
    by (simp add: unat_of_nat)
  moreover have "unat (of_nat (t mod 60) :: u8) = t mod 60"
    by (simp add: unat_of_nat)
  ultimately show ?thesis
    by (simp add: secondsOfDay_def withTime_def)
qed

lemma withTime_in_range:
  assumes "t < 86400"
  shows "hour (withTime t dt) < 24" and "minute (withTime t dt) < 60"
    and "unat (second (withTime t dt)) = t mod 60"
proof -
  have h: "t div 60 div 60 < 24"
    using assms by (simp only: day_length_div)
  show "hour (withTime t dt) < 24"
    using h by (simp add: withTime_def word_less_nat_alt unat_of_nat)
  show "minute (withTime t dt) < 60"
    by (simp add: withTime_def word_less_nat_alt unat_of_nat)
  show "unat (second (withTime t dt)) = t mod 60"
    by (simp add: withTime_def unat_of_nat)
qed

lemma carryDays_withTime: "carryDays (withTime t dt) = withTime t (carryDays dt)"
proof (induction dt rule: carryDays.induct)
  case (1 dt)
  show ?case
  proof (cases "daysInMonth (year dt) (month dt) < day dt")
    case False
    then show ?thesis
      by (simp add: carryDays_no_carry)
  next
    case True
    let ?dt1 = "dt\<lparr>day := day dt - daysInMonth (year dt) (month dt), month := month dt + 1\<rparr>"
    let ?dt2 = "if 12 < month ?dt1 then ?dt1\<lparr>month := 1, year := year ?dt1 + 1\<rparr> else ?dt1"
    have ih: "carryDays (withTime t ?dt2) = withTime t (carryDays ?dt2)"
      by (rule "1.IH" [OF refl True refl refl])
    have l: "carryDays dt = carryDays ?dt2"
      using True by (simp add: carryDays.simps [of dt] Let_def)
    have "withTime t ?dt2 =
        (let dt1 = (withTime t dt)\<lparr>day := day dt - daysInMonth (year dt) (month dt),
                                      month := month dt + 1\<rparr>
         in if 12 < month dt1 then dt1\<lparr>month := 1, year := year dt1 + 1\<rparr> else dt1)"
      by (cases dt) (simp add: withTime_def Let_def)
    then have r: "carryDays (withTime t dt) = carryDays (withTime t ?dt2)"
      using True by (simp add: carryDays.simps [of "withTime t dt"] Let_def)
    show ?thesis
      by (simp only: l r ih)
  qed
qed

lemma nextDay_withTime: "nextDay (withTime t dt) = withTime t (nextDay dt)"
proof -
  have "nextDay (withTime t dt) = carryDays (withTime t (dt\<lparr>day := day dt + 1,
          dayOfWeek := word_of_int ((uint (dayOfWeek dt) - 1 + 1) smod 7 + 1)\<rparr>))"
    by (cases dt) (simp add: nextDay_def withTime_def)
  then show ?thesis
    by (simp only: carryDays_withTime nextDay_def)
qed

lemma carry_once:
  fixes k :: nat
  assumes "60 \<le> k" and "k < 120"
  shows "k = 60 + k mod 60"
proof -
  have "k mod 60 = (k - 60) mod 60"
    using assms(1) by (rule le_mod_geq)
  also have "\<dots> = k - 60"
    using assms(2) by simp
  finally show ?thesis
    using assms(1) by simp
qed

lemma rollover_secondsOfDay:
  assumes ho: "hour dt < 24" and mi: "minute dt < 60"
  shows "rollover dt = (if secondsOfDay dt < 86400 then withTime (secondsOfDay dt) dt
                        else withTime (secondsOfDay dt - 86400) (nextDay dt))"
proof -
  let ?H = "unat (hour dt)" and ?M = "unat (minute dt)" and ?S = "unat (second dt)"
  let ?c = "second dt div 60"
  let ?T = "secondsOfDay dt"
  have M: "?M < 60" using mi by (simp add: u8_nat)
  have H: "?H < 24" using ho by (simp add: u8_nat)
  have S: "?S < 256" by (rule unat_u8_less)
  have uc: "unat ?c = ?S div 60" by (simp add: unat_div)
  have ur: "unat (second dt mod 60) = ?S mod 60" by (simp add: unat_mod)
  have um: "unat (minute dt + ?c) = ?M + ?S div 60"
    using M S by (simp add: unat_word_ariths(1) uc)
  have um2: "unat ((minute dt + ?c) mod 60) = (?M + ?S div 60) mod 60"
    using um by (simp add: unat_mod)
  have uh: "unat (hour dt + 1) = ?H + 1"
    using H by (simp add: u8_nat)
  have Sdm: "?S = ?S div 60 * 60 + ?S mod 60"
    by simp
  have r60: "?S mod 60 < 60" by simp
  show ?thesis
  proof (cases "60 \<le> second dt")
    case False
    then have s: "?S < 60" by (simp add: u8_nat)
    have lt: "?T < 86400"
      using H M s by (simp add: secondsOfDay_def)
    have "withTime ?T dt = dt"
      unfolding secondsOfDay_def withTime_normal [OF M s] by simp
    moreover have "rollover dt = dt"
      using False by (simp add: rollover_def)
    ultimately show ?thesis
      using lt by simp
  next
    case sec: True
    show ?thesis
    proof (cases "60 \<le> minute dt + ?c")
      case False
      then have m: "?M + ?S div 60 < 60"
        using um by (simp add: word_le_nat_alt)
      have T: "?T = (?H * 60 + (?M + ?S div 60)) * 60 + ?S mod 60"
        using Sdm by (simp add: secondsOfDay_def)
      have lt: "?T < 86400"
        using H m r60 unfolding T by simp
      have "withTime ?T dt = dt\<lparr>hour := of_nat ?H, minute := of_nat (?M + ?S div 60),
                                  second := of_nat (?S mod 60)\<rparr>"
        unfolding T by (rule withTime_normal [OF m r60])
      also have "\<dots> = dt\<lparr>minute := minute dt + ?c, second := second dt mod 60\<rparr>"
        using um [symmetric] ur [symmetric] by (cases dt) (simp del: of_nat_add)
      finally have "withTime ?T dt = dt\<lparr>minute := minute dt + ?c, second := second dt mod 60\<rparr>" .
      moreover have "rollover dt = dt\<lparr>minute := minute dt + ?c, second := second dt mod 60\<rparr>"
        using sec False by (simp add: rollover_def Let_def)
      ultimately show ?thesis
        using lt by simp
    next
      case min: True
      have c4: "?c \<le> 4" by (rule u8_div_60_le)
      have one: "(minute dt + ?c) div 60 = 1"
        using mi c4 min by (rule minute_carry)
      have "60 \<le> ?M + ?S div 60"
        using min um by (simp add: word_le_nat_alt)
      moreover have "?M + ?S div 60 < 120"
        using M S by simp
      ultimately have Mdm: "?M + ?S div 60 = 60 + (?M + ?S div 60) mod 60"
        by (rule carry_once)
      have m60: "(?M + ?S div 60) mod 60 < 60" by simp
      define cN rN mN where "cN = ?S div 60" and "rN = ?S mod 60"
        and "mN = (?M + ?S div 60) mod 60"
      have lin: "?S = cN * 60 + rN" "?M + cN = 60 + mN"
        using Sdm Mdm by (simp_all add: cN_def rN_def mN_def)
      show ?thesis
      proof (cases "24 \<le> hour dt + 1")
        case False
        then have h: "?H + 1 < 24"
          using uh by (simp add: word_le_nat_alt)
        have "(?M + cN) * 60 = (60 + mN) * 60"
          by (simp only: lin(2))
        then have "?T = ((?H + 1) * 60 + mN) * 60 + rN"
          using lin(1) unfolding secondsOfDay_def by (simp add: add_mult_distrib)
        then have T: "?T = ((?H + 1) * 60 + (?M + ?S div 60) mod 60) * 60 + ?S mod 60"
          by (simp only: rN_def mN_def)
        have lt: "?T < 86400"
          using h m60 r60 unfolding T by simp
        have "withTime ?T dt = dt\<lparr>hour := of_nat (?H + 1),
            minute := of_nat ((?M + ?S div 60) mod 60), second := of_nat (?S mod 60)\<rparr>"
          unfolding T by (rule withTime_normal [OF m60 r60])
        also have "\<dots> = dt\<lparr>hour := hour dt + 1, minute := (minute dt + ?c) mod 60,
                                 second := second dt mod 60\<rparr>"
          using um2 [symmetric] ur [symmetric] by (cases dt) (simp del: of_nat_add)
        finally have w: "withTime ?T dt = dt\<lparr>hour := hour dt + 1,
            minute := (minute dt + ?c) mod 60, second := second dt mod 60\<rparr>" .
        have "rollover dt = dt\<lparr>hour := hour dt + 1,
            minute := (minute dt + ?c) mod 60, second := second dt mod 60\<rparr>"
          using sec min False one by (cases dt) (simp add: rollover_def Let_def)
        then show ?thesis
          using lt w by simp
      next
        case hr: True
        have h24: "hour dt + 1 = 24"
          using ho hr by (rule hour_carry)
        then have "?H + 1 = 24"
          using uh by simp
        moreover have "(?M + cN) * 60 = (60 + mN) * 60"
          by (simp only: lin(2))
        ultimately have "?T = ((24 * 60) + mN) * 60 + rN"
          using lin(1) unfolding secondsOfDay_def by (simp add: add_mult_distrib)
        then have T: "?T = ((24 * 60) + (?M + ?S div 60) mod 60) * 60 + ?S mod 60"
          by (simp only: rN_def mN_def)
        have ge: "\<not> ?T < 86400"
          unfolding T by simp
        let ?d = "dt\<lparr>day := day dt + 1,
                   dayOfWeek := word_of_int ((uint (dayOfWeek dt) - 1 + 1) smod 7 + 1)\<rparr>"
        have "withTime (?T - 86400) ?d = ?d\<lparr>hour := 0,
            minute := of_nat ((?M + ?S div 60) mod 60), second := of_nat (?S mod 60)\<rparr>"
          by (rule withTime_normal_next_day [OF m60 r60 T])
        also have "\<dots> = dt\<lparr>second := second dt mod 60, minute := (minute dt + ?c) mod 60,
                     day := day dt + 1, hour := 0,
                     dayOfWeek := word_of_int ((uint (dayOfWeek dt) - 1 + 1) smod 7 + 1)\<rparr>"
          using um2 [symmetric] ur [symmetric] by (cases dt) (simp del: of_nat_add)
        finally have w: "dt\<lparr>second := second dt mod 60, minute := (minute dt + ?c) mod 60,
                     day := day dt + 1, hour := 0,
                     dayOfWeek := word_of_int ((uint (dayOfWeek dt) - 1 + 1) smod 7 + 1)\<rparr>
                   = withTime (?T - 86400) ?d" by (rule sym)
        have "rollover dt = carryDays (dt\<lparr>second := second dt mod 60,
                     minute := (minute dt + ?c) mod 60,
                     day := day dt + 1, hour := 0,
                     dayOfWeek := word_of_int ((uint (dayOfWeek dt) - 1 + 1) smod 7 + 1)\<rparr>)"
          using sec min hr one h24 by (simp add: rollover_def Let_def)
        also have "\<dots> = withTime (?T - 86400) (nextDay dt)"
          unfolding w carryDays_withTime nextDay_def ..
        finally show ?thesis
          using ge by simp
      qed
    qed
  qed
qed

lemma updateInternalTime_addSeconds:
  "updateInternalTime now s =
     (if 1000 \<le> now - lastTimeUpdateMillis s then
        s\<lparr>lastTimeUpdateMillis :=
            lastTimeUpdateMillis s + (now - lastTimeUpdateMillis s) div 1000 * 1000,
          currentDateTime :=
            addSeconds ((now - lastTimeUpdateMillis s) div 1000) (currentDateTime s)\<rparr>
      else s)"
  by (simp add: updateInternalTime_def addSeconds_def Let_def)

lemma unat_second_sum:
  fixes x :: u8 and e :: u32
  assumes "unat x + unat e \<le> 255"
  shows "unat (ucast ((ucast x :: u32) + e) :: u8) = unat x + unat e"
proof -
  have x: "unat (ucast x :: u32) = unat x"
    using unat_u8_less [of x] by (simp add: unsigned_ucast_eq take_bit_eq_mod)
  have "unat ((ucast x :: u32) + e) = unat x + unat e"
    using assms by (simp add: unat_word_ariths(1) x)
  then show ?thesis
    using assms by (simp add: unsigned_ucast_eq take_bit_eq_mod)
qed

lemma addSeconds_secondsOfDay:
  assumes ho: "hour dt < 24" and mi: "minute dt < 60"
    and le: "unat (second dt) + unat e \<le> 255"
  shows "addSeconds e dt =
           (if secondsOfDay dt + unat e < 86400 then withTime (secondsOfDay dt + unat e) dt
            else withTime (secondsOfDay dt + unat e - 86400) (nextDay dt))"
proof -
  let ?x = "ucast ((ucast (second dt) :: u32) + e) :: u8"
  let ?dt' = "dt\<lparr>second := ?x\<rparr>"
  have T: "secondsOfDay ?dt' = secondsOfDay dt + unat e"
    using unat_second_sum [OF le] by (simp add: secondsOfDay_def)
  have w: "\<And>t. withTime t ?dt' = withTime t dt"
    by (rule withTime_second_update)
  have "\<And>t. withTime t (nextDay ?dt') = nextDay (withTime t ?dt')"
    by (simp only: nextDay_withTime)
  then have n: "\<And>t. withTime t (nextDay ?dt') = withTime t (nextDay dt)"
    by (simp only: w nextDay_withTime)
  have "addSeconds e dt = rollover ?dt'"
    by (simp add: addSeconds_def)
  also have "\<dots> = (if secondsOfDay ?dt' < 86400 then withTime (secondsOfDay ?dt') ?dt'
                        else withTime (secondsOfDay ?dt' - 86400) (nextDay ?dt'))"
    using ho mi by (intro rollover_secondsOfDay) simp_all
  finally show ?thesis
    by (simp only: T w n)
qed

lemma secondsOfDay_atRest:
  assumes "atRest dt"
  shows "secondsOfDay dt < 86400"
proof -
  have "unat (hour dt) < 24" "unat (minute dt) < 60" "unat (second dt) < 60"
    using assms by (simp_all add: atRest_def word_less_nat_alt)
  then show ?thesis
    by (simp add: secondsOfDay_def)
qed

lemma secondsOfDay_mod_60: "(secondsOfDay dt + n) mod 60 = (unat (second dt) + n) mod 60"
proof -
  have "secondsOfDay dt + n = (unat (hour dt) * 60 + unat (minute dt)) * 60 + (unat (second dt) + n)"
    by (simp add: secondsOfDay_def)
  then show ?thesis
    by (simp only: mod_mult_self3)
qed

lemma addSeconds_compose:
  assumes rest: "atRest dt"
    and le: "unat (second dt) + unat e1 + unat e2 \<le> 255"
  shows "addSeconds e2 (addSeconds e1 dt) = addSeconds (e1 + e2) dt"
proof -
  let ?T = "secondsOfDay dt" and ?n1 = "unat e1" and ?n2 = "unat e2"
  have ho: "hour dt < 24" and mi: "minute dt < 60"
    using rest by (simp_all add: atRest_def)
  have T: "?T < 86400"
    using rest by (rule secondsOfDay_atRest)
  have sum: "unat (e1 + e2) = ?n1 + ?n2"
    using le by (simp add: unat_word_ariths(1))
  have one: "addSeconds (e1 + e2) dt =
      (if ?T + ?n1 + ?n2 < 86400 then withTime (?T + ?n1 + ?n2) dt
       else withTime (?T + ?n1 + ?n2 - 86400) (nextDay dt))"
    using le addSeconds_secondsOfDay [OF ho mi, of "e1 + e2"] by (simp add: sum add.assoc)
  have first: "addSeconds e1 dt =
      (if ?T + ?n1 < 86400 then withTime (?T + ?n1) dt
       else withTime (?T + ?n1 - 86400) (nextDay dt))"
    using le by (intro addSeconds_secondsOfDay [OF ho mi]) simp
  show ?thesis
  proof (cases "?T + ?n1 < 86400")
    case True
    let ?dt1 = "withTime (?T + ?n1) dt"
    have dt1: "addSeconds e1 dt = ?dt1"
      using first True by simp
    have "unat (second ?dt1) = (unat (second dt) + ?n1) mod 60"
      using withTime_in_range(3) [OF True] by (simp only: secondsOfDay_mod_60)
    then have "unat (second ?dt1) \<le> unat (second dt) + ?n1"
      by simp
    then have le2: "unat (second ?dt1) + ?n2 \<le> 255"
      using le by simp
    have "addSeconds e2 ?dt1 =
        (if secondsOfDay ?dt1 + ?n2 < 86400 then withTime (secondsOfDay ?dt1 + ?n2) ?dt1
         else withTime (secondsOfDay ?dt1 + ?n2 - 86400) (nextDay ?dt1))"
      using withTime_in_range(1,2) [OF True] le2 by (rule addSeconds_secondsOfDay)
    then have "addSeconds e2 ?dt1 =
        (if ?T + ?n1 + ?n2 < 86400 then withTime (?T + ?n1 + ?n2) dt
         else withTime (?T + ?n1 + ?n2 - 86400) (nextDay dt))"
      by (simp only: secondsOfDay_withTime [OF True] withTime_withTime nextDay_withTime)
    then show ?thesis
      by (simp only: dt1 one)
  next
    case False
    let ?t1 = "?T + ?n1 - 86400"
    let ?dt1 = "withTime ?t1 (nextDay dt)"
    have dt1: "addSeconds e1 dt = ?dt1"
      using first False by simp
    have n1: "?n1 \<le> 255"
      using le by simp
    have t1: "?t1 < 86400"
      using T n1 by simp
    have t1n: "?t1 < ?n1"
      using T False by simp
    have "unat (second ?dt1) = ?t1 mod 60"
      by (rule withTime_in_range(3) [OF t1])
    also have "\<dots> \<le> ?t1"
      by simp
    finally have le2: "unat (second ?dt1) + ?n2 \<le> 255"
      using t1n le by simp
    have small: "?t1 + ?n2 < 86400"
      using t1n le by simp
    have "addSeconds e2 ?dt1 =
        (if secondsOfDay ?dt1 + ?n2 < 86400 then withTime (secondsOfDay ?dt1 + ?n2) ?dt1
         else withTime (secondsOfDay ?dt1 + ?n2 - 86400) (nextDay ?dt1))"
      using withTime_in_range(1,2) [OF t1] le2 by (rule addSeconds_secondsOfDay)
    then have "addSeconds e2 ?dt1 = withTime (?t1 + ?n2) (nextDay dt)"
      using small by (simp only: secondsOfDay_withTime [OF t1] withTime_withTime if_True)
    moreover have "?t1 + ?n2 = ?T + ?n1 + ?n2 - 86400"
      using False by simp
    moreover have "\<not> ?T + ?n1 + ?n2 < 86400"
      using False by simp
    ultimately show ?thesis
      by (simp only: dt1 one if_False)
  qed
qed

lemma div_1000_bound:
  fixes k :: nat
  assumes "k div 1000 \<le> 255"
  shows "k < 256000"
proof -
  have "k div 1000 < 256" using assms by simp
  then show ?thesis by (simp add: div_less_iff_less_mult)
qed

lemma unat_u32_add_nat:
  fixes x :: u32
  assumes "unat x + d < 256000"
  shows "unat (x + of_nat d) = unat x + d"
proof -
  have "d < 4294967296" using assms by simp
  then have "unat (of_nat d :: u32) = d"
    by (simp add: unat_of_nat)
  then show ?thesis
    using assms by (simp add: unat_word_ariths(1))
qed

lemma whole_seconds_split:
  fixes a r :: nat
  shows "(a + r) div 1000 = a div 1000 + (a mod 1000 + r) div 1000"
proof -
  have "a + r = a div 1000 * 1000 + (a mod 1000 + r)"
    by simp
  then show ?thesis
    by (simp only: div_mult_self3)
qed

lemma unat_elapsed_ms:
  fixes e :: u32
  assumes "unat e * 1000 < 4294967296"
  shows "unat (e * 1000) = unat e * 1000"
  using assms by (simp add: unat_word_ariths(2))

lemma second_addSeconds_le:
  assumes rest: "atRest dt" and le: "unat (second dt) + unat e \<le> 255"
  shows "unat (second (addSeconds e dt)) \<le> unat (second dt) + unat e"
proof -
  have ho: "hour dt < 24" and mi: "minute dt < 60"
    using rest by (simp_all add: atRest_def)
  have T: "secondsOfDay dt < 86400"
    using rest by (rule secondsOfDay_atRest)
  note eq = addSeconds_secondsOfDay [OF ho mi le]
  show ?thesis
  proof (cases "secondsOfDay dt + unat e < 86400")
    case True
    then have "unat (second (addSeconds e dt)) = (secondsOfDay dt + unat e) mod 60"
      using eq withTime_in_range(3) [OF True] by simp
    then show ?thesis
      by (simp add: secondsOfDay_mod_60)
  next
    case False
    have lt: "secondsOfDay dt + unat e - 86400 < 86400"
      using T le by simp
    have "unat (second (addSeconds e dt)) = (secondsOfDay dt + unat e - 86400) mod 60"
      using eq False withTime_in_range(3) [OF lt] by simp
    also have "\<dots> \<le> secondsOfDay dt + unat e - 86400"
      by simp
    also have "\<dots> \<le> unat e"
      using T by simp
    finally show ?thesis
      by simp
  qed
qed

lemma atRest_addSeconds:
  assumes "atRest dt"
  shows "atRest (addSeconds e dt)"
  unfolding addSeconds_def using assms by (intro rollover_atRest) (simp_all add: atRest_def)

lemma whole_seconds_rest:
  fixes a b :: nat
  assumes "a \<le> b"
  shows "(b - a div 1000 * 1000) div 1000 = b div 1000 - a div 1000"
proof -
  have "a div 1000 * 1000 \<le> a" by simp
  then have "b = a div 1000 * 1000 + (b - a div 1000 * 1000)"
    using assms by simp
  then have "b div 1000 = a div 1000 + (b - a div 1000 * 1000) div 1000"
    by (metis div_mult_self3 zero_neq_numeral)
  then show ?thesis by simp
qed

lemma updateInternalTime_twice:
  fixes now1 now2 :: u32
  assumes rest: "atRest (currentDateTime s)"
    and ab: "unat (now1 - lastTimeUpdateMillis s) \<le> unat (now2 - lastTimeUpdateMillis s)"
    and le: "unat (second (currentDateTime s))
             + unat (now2 - lastTimeUpdateMillis s) div 1000 \<le> 255"
  shows "updateInternalTime now2 (updateInternalTime now1 s) = updateInternalTime now2 s"
proof (cases "1000 \<le> now1 - lastTimeUpdateMillis s")
  case False
  then show ?thesis
    by (simp add: updateInternalTime_addSeconds)
next
  case True
  let ?L = "lastTimeUpdateMillis s" and ?dt = "currentDateTime s"
  let ?a = "unat (now1 - ?L)" and ?b = "unat (now2 - ?L)"
  let ?e1 = "(now1 - ?L) div 1000" and ?E = "(now2 - ?L) div 1000"
  let ?L1 = "?L + ?e1 * 1000"
  let ?e2 = "(now2 - ?L1) div 1000"
  have a: "1000 \<le> ?a"
    using True by (simp add: word_le_nat_alt)
  then have b: "1000 \<le> ?b"
    using ab by simp
  then have now2: "1000 \<le> now2 - ?L"
    by (simp add: word_le_nat_alt)
  have blt: "?b < 256000"
    using le by (intro div_1000_bound) simp
  have ue1: "unat ?e1 = ?a div 1000" and uE: "unat ?E = ?b div 1000"
    by (simp_all add: unat_div)
  have qa: "?a div 1000 * 1000 \<le> ?a"
    by simp
  have m1: "unat (?e1 * 1000) = ?a div 1000 * 1000"
    using qa ab blt by (simp add: unat_elapsed_ms ue1)
  have diff: "now2 - ?L1 = (now2 - ?L) - ?e1 * 1000"
    by simp
  have "?e1 * 1000 \<le> now2 - ?L"
    using qa ab by (simp add: word_le_nat_alt m1)
  then have "unat (now2 - ?L - ?e1 * 1000) = ?b - unat (?e1 * 1000)"
    by (rule unat_sub)
  then have u2: "unat (now2 - ?L1) = ?b - ?a div 1000 * 1000"
    by (simp only: diff m1)
  have ue2: "unat ?e2 = ?b div 1000 - ?a div 1000"
    using whole_seconds_rest [OF ab] by (simp only: unat_div u2) simp
  have mono: "?a div 1000 \<le> ?b div 1000"
    using ab by (rule div_le_mono)
  have "unat (?e1 + ?e2) = ?b div 1000"
    using mono blt by (simp add: unat_word_ariths(1) ue1 ue2)
  then have E: "?E = ?e1 + ?e2"
    by (simp only: word_unat_eq_iff uE)
  have s1: "updateInternalTime now1 s
            = s\<lparr>lastTimeUpdateMillis := ?L1, currentDateTime := addSeconds ?e1 ?dt\<rparr>"
    using True by (simp add: updateInternalTime_addSeconds)
  have whole: "updateInternalTime now2 s
            = s\<lparr>lastTimeUpdateMillis := ?L + ?E * 1000, currentDateTime := addSeconds ?E ?dt\<rparr>"
    using now2 by (simp add: updateInternalTime_addSeconds)
  show ?thesis
  proof (cases "1000 \<le> now2 - ?L1")
    case False
    then have "unat (now2 - ?L1) < 1000"
      by (simp add: word_le_nat_alt)
    then have "unat ?e2 = 0"
      by (simp add: unat_div)
    then have "?e2 = 0"
      by (simp only: unat_eq_zero)
    then have "?E = ?e1"
      using E by simp
    moreover have "updateInternalTime now2 (updateInternalTime now1 s) = updateInternalTime now1 s"
      using False by (simp add: s1 updateInternalTime_addSeconds [of now2])
    ultimately show ?thesis
      by (simp only: s1 whole)
  next
    case second_call: True
    have "unat (second ?dt) + unat ?e1 + unat ?e2 \<le> 255"
      using le mono by (simp add: ue1 ue2)
    with rest have comp: "addSeconds ?e2 (addSeconds ?e1 ?dt) = addSeconds (?e1 + ?e2) ?dt"
      by (rule addSeconds_compose)
    have "updateInternalTime now2 (updateInternalTime now1 s)
          = s\<lparr>lastTimeUpdateMillis := ?L1 + ?e2 * 1000,
              currentDateTime := addSeconds ?e2 (addSeconds ?e1 ?dt)\<rparr>"
      using second_call by (simp add: s1 updateInternalTime_addSeconds [of now2])
    moreover have "?L1 + ?e2 * 1000 = ?L + (?e1 + ?e2) * 1000"
      by (simp add: distrib_right)
    ultimately show ?thesis
      by (simp only: comp whole E)
  qed
qed

lemma updateInternalTime_keeps_atRest:
  assumes "atRest (currentDateTime s)"
  shows "atRest (currentDateTime (updateInternalTime now s))"
  using assms by (simp add: updateInternalTime_addSeconds atRest_addSeconds)

lemma in_range_after_call:
  assumes rest: "atRest (currentDateTime s)"
    and le: "unat (second (currentDateTime s))
             + (unat (now - lastTimeUpdateMillis s) + r) div 1000 \<le> 255"
  shows "unat (second (currentDateTime (updateInternalTime now s)))
         + (unat (now - lastTimeUpdateMillis (updateInternalTime now s)) + r) div 1000 \<le> 255"
proof (cases "1000 \<le> now - lastTimeUpdateMillis s")
  case False
  then show ?thesis
    using le by (simp add: updateInternalTime_addSeconds)
next
  case True
  let ?L = "lastTimeUpdateMillis s" and ?dt = "currentDateTime s"
  let ?a = "unat (now - ?L)"
  let ?e1 = "(now - ?L) div 1000"
  let ?L1 = "?L + ?e1 * 1000"
  have s1: "updateInternalTime now s
            = s\<lparr>lastTimeUpdateMillis := ?L1, currentDateTime := addSeconds ?e1 ?dt\<rparr>"
    using True by (simp add: updateInternalTime_addSeconds)
  have split: "(?a + r) div 1000 = ?a div 1000 + (?a mod 1000 + r) div 1000"
    by (rule whole_seconds_split)
  have alt: "?a < 256000"
  proof -
    have "?a div 1000 \<le> 255" using le split by simp
    then show ?thesis by (rule div_1000_bound)
  qed
  have ue1: "unat ?e1 = ?a div 1000"
    by (simp add: unat_div)
  have qa: "?a div 1000 * 1000 \<le> ?a"
    by simp
  have m1: "unat (?e1 * 1000) = ?a div 1000 * 1000"
    using qa alt by (simp add: unat_elapsed_ms ue1)
  have "?e1 * 1000 \<le> now - ?L"
    using qa by (simp add: word_le_nat_alt m1)
  then have "unat (now - ?L - ?e1 * 1000) = ?a - unat (?e1 * 1000)"
    by (rule unat_sub)
  moreover have "now - ?L1 = now - ?L - ?e1 * 1000"
    by simp
  moreover have "?a - ?a div 1000 * 1000 = ?a mod 1000"
    by (simp add: minus_div_mult_eq_mod)
  ultimately have pending: "unat (now - ?L1) = ?a mod 1000"
    by (simp only: m1)
  have "unat (second ?dt) + unat ?e1 \<le> 255"
    using le split by (simp add: ue1)
  with rest have "unat (second (addSeconds ?e1 ?dt)) \<le> unat (second ?dt) + unat ?e1"
    by (rule second_addSeconds_le)
  then have "unat (second (addSeconds ?e1 ?dt)) + (?a mod 1000 + r) div 1000 \<le> 255"
    using le split by (simp add: ue1)
  then show ?thesis
    by (simp add: s1 pending)
qed

text \<open>
  As long as the second field can hold the sum, that is, the seconds shown plus the whole
  seconds between lastTimeUpdateMillis and the last call are at most 255, several calls
  leave the same state as one call at the end: nothing is counted twice and the pending
  milliseconds are kept.
\<close>

lemma advanceEach_in_range:
  assumes "atRest (currentDateTime s)"
    and "unat (second (currentDateTime s))
         + (unat (c - lastTimeUpdateMillis s) + d + sum_list ds) div 1000 \<le> 255"
  shows "advanceEach c (d # ds) s = updateInternalTime (c + of_nat (d + sum_list ds)) s"
  using assms
proof (induction ds arbitrary: c d s)
  case Nil
  show ?case by simp
next
  case (Cons d' ds')
  let ?L = "lastTimeUpdateMillis s"
  let ?p = "unat (c - ?L)"
  let ?r = "d' + sum_list ds'"
  let ?now1 = "c + of_nat d"
  let ?now2 = "?now1 + of_nat ?r"
  let ?s1 = "updateInternalTime ?now1 s"
  have le: "unat (second (currentDateTime s)) + (?p + d + ?r) div 1000 \<le> 255"
    using Cons.prems(2) by (simp add: add.assoc)
  then have total: "?p + d + ?r < 256000"
    by (intro div_1000_bound) simp
  have "?now1 - ?L = (c - ?L) + of_nat d"
    by simp
  then have a: "unat (?now1 - ?L) = ?p + d"
    using total by (simp only: unat_u32_add_nat)
  have "?now2 - ?L = (?now1 - ?L) + of_nat ?r"
    by simp
  then have b: "unat (?now2 - ?L) = ?p + d + ?r"
    using total a by (simp only: unat_u32_add_nat)
  have rest1: "atRest (currentDateTime ?s1)"
    using Cons.prems(1) by (rule updateInternalTime_keeps_atRest)
  have "unat (second (currentDateTime ?s1))
        + (unat (?now1 - lastTimeUpdateMillis ?s1) + ?r) div 1000 \<le> 255"
  proof (rule in_range_after_call [OF Cons.prems(1)])
    show "unat (second (currentDateTime s)) + (unat (?now1 - ?L) + ?r) div 1000 \<le> 255"
      unfolding a by (rule le)
  qed
  then have range1: "unat (second (currentDateTime ?s1))
        + (unat (?now1 - lastTimeUpdateMillis ?s1) + d' + sum_list ds') div 1000 \<le> 255"
    by (simp add: add.assoc)
  have "advanceEach c (d # d' # ds') s = advanceEach ?now1 (d' # ds') ?s1"
    by simp
  also have "\<dots> = updateInternalTime ?now2 ?s1"
    using rest1 range1 by (rule Cons.IH)
  also have "\<dots> = updateInternalTime ?now2 s"
  proof (rule updateInternalTime_twice [OF Cons.prems(1)])
    show "unat (?now1 - ?L) \<le> unat (?now2 - ?L)"
      unfolding a b by simp
    show "unat (second (currentDateTime s)) + unat (?now2 - ?L) div 1000 \<le> 255"
      unfolding b by (rule le)
  qed
  also have "?now2 = c + of_nat (d + sum_list (d' # ds'))"
    by simp
  finally show ?case .
qed

lemma advanceEach_in_range_example:
  "advanceEach 0 [700, 700, 58700] initialWatch = updateInternalTime 60100 initialWatch
   \<and> currentDateTime (updateInternalTime 60100 initialWatch)
       = \<lparr>year = 2024, month = 1, day = 1, hour = 0, minute = 1, second = 0, dayOfWeek = 1\<rparr>
   \<and> lastTimeUpdateMillis (updateInternalTime 60100 initialWatch) = 60000"
proof -
  have rest: "atRest (currentDateTime initialWatch)"
    by (simp add: initialWatch_def atRest_def daysInMonth_def)
  have range: "unat (second (currentDateTime initialWatch))
      + (unat (0 - lastTimeUpdateMillis initialWatch) + 700 + sum_list [700, 58700]) div 1000
      \<le> 255"
    by (simp add: initialWatch_def)
  have "advanceEach 0 [700, 700, 58700] initialWatch = updateInternalTime 60100 initialWatch"
    using advanceEach_in_range [OF rest range] by simp
  moreover have "currentDateTime (updateInternalTime 60100 initialWatch)
       = \<lparr>year = 2024, month = 1, day = 1, hour = 0, minute = 1, second = 0, dayOfWeek = 1\<rparr>"
    by (simp add: initialWatch_def updateInternalTime_def rollover_def Let_def)
  moreover have "lastTimeUpdateMillis (updateInternalTime 60100 initialWatch) = 60000"
    by (simp add: initialWatch_def updateInternalTime_def rollover_def Let_def)
  ultimately show ?thesis
    by (intro conjI)
qed

section \<open>Wire layout of the Current Time characteristic\<close>

text \<open>
  C7. For every DateTime the encoded payload has exactly 10 bytes: byte 0 is the year
  modulo 256 and byte 1 the year divided by 256 (little-endian), bytes 2 to 7 are month,
  day, hour, minute, second and day of week, and byte 8 (fractions of a second) is 0.
\<close>

theorem timeData_layout:
  "length (timeData dt) = 10
   \<and> unat (timeData dt ! 0) = unat (year dt) mod 256
   \<and> unat (timeData dt ! 1) = unat (year dt) div 256
   \<and> timeData dt ! 2 = month dt
   \<and> timeData dt ! 3 = day dt
   \<and> timeData dt ! 4 = hour dt
   \<and> timeData dt ! 5 = minute dt
   \<and> timeData dt ! 6 = second dt
   \<and> timeData dt ! 7 = dayOfWeek dt
   \<and> timeData dt ! 8 = 0"
proof -
  have b0: "unat (timeData dt ! 0) = unat (year dt) mod 256"
    unfolding timeData_def nth_Cons_0 by (rule unat_low_byte)
  have "timeData dt ! 1 = ucast (drop_bit 8 (year dt) AND 0xFF)"
    by (simp add: timeData_def)
  then have b1: "unat (timeData dt ! 1) = unat (year dt) div 256"
    by (simp only: unat_high_byte)
  have rest: "length (timeData dt) = 10" "timeData dt ! 2 = month dt"
    "timeData dt ! 3 = day dt" "timeData dt ! 4 = hour dt" "timeData dt ! 5 = minute dt"
    "timeData dt ! 6 = second dt" "timeData dt ! 7 = dayOfWeek dt" "timeData dt ! 8 = 0"
    by (simp_all add: timeData_def)
  from b0 b1 rest show ?thesis
    by (intro conjI)
qed

section \<open>Encode and decode\<close>

text \<open>
  C5. Round trip: for every DateTime (a 16-bit year and 8-bit fields, as the layout
  holds them), encoding it to the 10 bytes of the Current Time layout and decoding
  those bytes gives back the same year, month, day, hour, minute, second and day of
  week; the decoder ignores bytes 8 (fractions) and 9 (adjust reason), whatever they hold.
\<close>

theorem parseCurrentTime_timeData:
  "parseCurrentTime (timeData dt) = dt
   \<and> parseCurrentTime ((timeData dt)[8 := fractions256, 9 := adjustReason]) = dt"
  by (simp add: parseCurrentTime_def timeData_def year_roundtrip)

section \<open>Writes to the Current Time characteristic\<close>

text \<open>
  C3. Authoritative write: for a 10-byte payload, if a validated field is out of range
  (month not in 1..12, day not in 1..31, hour above 23, minute above 59, second above
  59, day of week not in 1..7) the DateTime and lastTimeUpdateMillis stay as they were
  and the handler reports "invalid time data format"; if all of them are in range, all
  seven fields of the DateTime take the decoded values and lastTimeUpdateMillis becomes
  the current millisecond counter, so that an update at that instant applies no elapsed
  time.
\<close>

theorem currentTimeWrittenHandler_contract:
  fixes central :: BLEDevice and val :: "u8 list" and now :: u32 and s :: watch
  assumes len: "length val = 10"
  defines "s' \<equiv> currentTimeWrittenHandler central val now s"
  defines "inRange \<equiv>
     1 \<le> unat (val ! 2) \<and> unat (val ! 2) \<le> 12 \<and> 1 \<le> unat (val ! 3) \<and> unat (val ! 3) \<le> 31 \<and>
     unat (val ! 4) \<le> 23 \<and> unat (val ! 5) \<le> 59 \<and> unat (val ! 6) \<le> 59 \<and>
     1 \<le> unat (val ! 7) \<and> unat (val ! 7) \<le> 7"
  shows "(\<not> inRange \<longrightarrow>
            currentDateTime s' = currentDateTime s \<and>
            lastTimeUpdateMillis s' = lastTimeUpdateMillis s \<and>
            serial s' = serial s @ [WrittenBy central, RawDataReceived val, InvalidTimeDataFormat])
       \<and> (inRange \<longrightarrow>
            unat (year (currentDateTime s')) = unat (val ! 0) + 256 * unat (val ! 1) \<and>
            month (currentDateTime s') = val ! 2 \<and>
            day (currentDateTime s') = val ! 3 \<and>
            hour (currentDateTime s') = val ! 4 \<and>
            minute (currentDateTime s') = val ! 5 \<and>
            second (currentDateTime s') = val ! 6 \<and>
            dayOfWeek (currentDateTime s') = val ! 7 \<and>
            lastTimeUpdateMillis s' = now \<and>
            currentDateTime (updateInternalTime now s') = currentDateTime s')"
proof -
  have v: "validFields (parseCurrentTime val) = inRange"
    by (simp only: validFields_parseCurrentTime inRange_def)
  show ?thesis
  proof (cases inRange)
    case True
    then have s': "s' = s\<lparr>currentDateTime := parseCurrentTime val, lastTimeUpdateMillis := now,
        serial := serial s @ [WrittenBy central, RawDataReceived val,
                              InternalTimeUpdated (parseCurrentTime val)]\<rparr>"
      using len v by (simp add: s'_def currentTimeWrittenHandler_accept)
    have "updateInternalTime now s' = s'"
      by (rule updateInternalTime_same_instant) (simp add: s')
    moreover have "unat (year (currentDateTime s')) = unat (val ! 0) + 256 * unat (val ! 1)"
      by (simp add: s' unat_year_parseCurrentTime)
    ultimately show ?thesis
      using True by (simp add: s' parseCurrentTime_def)
  next
    case False
    then show ?thesis
      using len v by (simp add: s'_def currentTimeWrittenHandler_reject)
  qed
qed

theorem currentTimeWrittenHandler_contract_witness:
  "length [232, 7, 13, 1, 0, 0, 0, 1, 0, 0 :: u8] = 10
   \<and> currentDateTime
        (currentTimeWrittenHandler ''peer'' [232, 7, 13, 1, 0, 0, 0, 1, 0, 0] 5000 initialWatch)
       = currentDateTime initialWatch
   \<and> lastTimeUpdateMillis
        (currentTimeWrittenHandler ''peer'' [232, 7, 13, 1, 0, 0, 0, 1, 0, 0] 5000 initialWatch)
       = lastTimeUpdateMillis initialWatch
   \<and> serial
        (currentTimeWrittenHandler ''peer'' [232, 7, 13, 1, 0, 0, 0, 1, 0, 0] 5000 initialWatch)
       = [WrittenBy ''peer'', RawDataReceived [232, 7, 13, 1, 0, 0, 0, 1, 0, 0], InvalidTimeDataFormat]
   \<and> length [233, 7, 6, 15, 12, 30, 45, 7, 9, 9 :: u8] = 10
   \<and> currentDateTime
        (currentTimeWrittenHandler ''peer'' [233, 7, 6, 15, 12, 30, 45, 7, 9, 9] 5000 initialWatch)
       = \<lparr>year = 2025, month = 6, day = 15, hour = 12, minute = 30, second = 45, dayOfWeek = 7\<rparr>
   \<and> lastTimeUpdateMillis
        (currentTimeWrittenHandler ''peer'' [233, 7, 6, 15, 12, 30, 45, 7, 9, 9] 5000 initialWatch)
       = 5000"
proof -
  have bad: "length [232, 7, 13, 1, 0, 0, 0, 1, 0, 0 :: u8] = 10"
    and good: "length [233, 7, 6, 15, 12, 30, 45, 7, 9, 9 :: u8] = 10"
    by simp_all
  have y: "year (currentDateTime
        (currentTimeWrittenHandler ''peer'' [233, 7, 6, 15, 12, 30, 45, 7, 9, 9] 5000 initialWatch))
      = 2025"
    using currentTimeWrittenHandler_contract [OF good, of "''peer''" 5000 initialWatch]
    by (simp add: word_unat_eq_iff)
  show ?thesis
    using currentTimeWrittenHandler_contract [OF bad, of "''peer''" 5000 initialWatch]
      currentTimeWrittenHandler_contract [OF good, of "''peer''" 5000 initialWatch] y
    by (simp add: initialWatch_def DateTime.equality)
qed

text \<open>
  C6. Malformed payload: a write whose payload is not exactly 10 bytes long is rejected
  with the "incorrect length" report; the DateTime and lastTimeUpdateMillis stay as they
  were, and nothing in the state but the serial output changes, so no truncated or
  padded reading of the payload is applied.
\<close>

theorem currentTimeWrittenHandler_wrong_length:
  assumes "length val \<noteq> 10"
  shows "currentTimeWrittenHandler central val now s
           = s\<lparr>serial := serial s @ [WrittenBy central, IncorrectLength (length val),
                                      RawDataReceived val]\<rparr>
         \<and> currentDateTime (currentTimeWrittenHandler central val now s) = currentDateTime s
         \<and> lastTimeUpdateMillis (currentTimeWrittenHandler central val now s)
             = lastTimeUpdateMillis s"
  using assms by (simp add: currentTimeWrittenHandler_def Let_def)

theorem currentTimeWrittenHandler_wrong_length_witness:
  "length [233, 7, 6, 15, 12, 30, 45, 7, 0 :: u8] \<noteq> 10
   \<and> currentDateTime
        (currentTimeWrittenHandler ''peer'' [233, 7, 6, 15, 12, 30, 45, 7, 0] 5000 initialWatch)
       = currentDateTime initialWatch
   \<and> lastTimeUpdateMillis
        (currentTimeWrittenHandler ''peer'' [233, 7, 6, 15, 12, 30, 45, 7, 0] 5000 initialWatch)
       = lastTimeUpdateMillis initialWatch
   \<and> serial
        (currentTimeWrittenHandler ''peer'' [233, 7, 6, 15, 12, 30, 45, 7, 0] 5000 initialWatch)
       = [WrittenBy ''peer'', IncorrectLength 9, RawDataReceived [233, 7, 6, 15, 12, 30, 45, 7, 0]]"
proof -
  have short: "length [233, 7, 6, 15, 12, 30, 45, 7, 0 :: u8] \<noteq> 10"
    by simp
  show ?thesis
    using currentTimeWrittenHandler_wrong_length [OF short, of "''peer''" 5000 initialWatch]
    by (simp add: initialWatch_def)
qed

text \<open>
  C9. Permissive validation: a 10-byte write is accepted whenever month is in 1..12,
  day in 1..31, hour at most 23, minute and second at most 59 and day of week in 1..7,
  whatever the year and whether or not the day exists in that month; the clock then
  holds the decoded candidate. A write of month 4, day 31 is applied.
\<close>

theorem currentTimeWrittenHandler_permissive:
  assumes "length val = 10"
    and "1 \<le> unat (val ! 2)" and "unat (val ! 2) \<le> 12"
    and "1 \<le> unat (val ! 3)" and "unat (val ! 3) \<le> 31"
    and "unat (val ! 4) \<le> 23" and "unat (val ! 5) \<le> 59" and "unat (val ! 6) \<le> 59"
    and "1 \<le> unat (val ! 7)" and "unat (val ! 7) \<le> 7"
  shows "currentDateTime (currentTimeWrittenHandler central val now s) = parseCurrentTime val
         \<and> month (currentDateTime (currentTimeWrittenHandler central val now s)) = val ! 2
         \<and> day (currentDateTime (currentTimeWrittenHandler central val now s)) = val ! 3
         \<and> lastTimeUpdateMillis (currentTimeWrittenHandler central val now s) = now"
proof -
  have "validFields (parseCurrentTime val)"
    using assms(2-) by (simp only: validFields_parseCurrentTime simp_thms)
  then show ?thesis
    using assms(1) by (simp add: currentTimeWrittenHandler_accept parseCurrentTime_def)
qed

theorem currentTimeWrittenHandler_permissive_witness:
  "currentDateTime
     (currentTimeWrittenHandler ''peer'' [232, 7, 4, 31, 12, 0, 0, 3, 0, 0] 5000 initialWatch)
    = \<lparr>year = 2024, month = 4, day = 31, hour = 12, minute = 0, second = 0, dayOfWeek = 3\<rparr>
   \<and> daysInMonth 2024 4 = 30"
proof -
  have "currentDateTime
     (currentTimeWrittenHandler ''peer'' [232, 7, 4, 31, 12, 0, 0, 3, 0, 0] 5000 initialWatch)
    = parseCurrentTime [232, 7, 4, 31, 12, 0, 0, 3, 0, 0]"
    using currentTimeWrittenHandler_permissive
      [of "[232, 7, 4, 31, 12, 0, 0, 3, 0, 0]" "''peer''" 5000 initialWatch]
    by simp
  then show ?thesis
    by (simp add: parseCurrentTime_def daysInMonth_def)
qed

section \<open>Link events\<close>

text \<open>
  C4. Link event dispatch: a connect event while disconnected sets centralConnected,
  records the central and makes exactly one snapshot push (Current Time, Local Time
  Information and Reference Time Information, each written once, in this order); a
  second connect event, received while connected, changes neither centralConnected nor
  the recorded central and makes no call to the BLE stack; a disconnect event while
  disconnected leaves centralConnected false and makes no call to the BLE stack.
\<close>

theorem link_event_dispatch:
  "(\<not> centralConnected s \<longrightarrow>
      centralConnected (blePeripheralConnectHandler c ok s) \<and>
      connectedCentral (blePeripheralConnectHandler c ok s) = c \<and>
      bleCalls (blePeripheralConnectHandler c ok s)
        = bleCalls s @ [WriteValue currentTimeChar (timeData (currentDateTime s)),
                        WriteValue localTimeInfoChar [32, 0],
                        WriteValue refTimeInfoChar [4, 254, 0, 0]] \<and>
      centralConnected (blePeripheralConnectHandler c2 ok2 (blePeripheralConnectHandler c ok s)) \<and>
      connectedCentral (blePeripheralConnectHandler c2 ok2 (blePeripheralConnectHandler c ok s)) = c \<and>
      bleCalls (blePeripheralConnectHandler c2 ok2 (blePeripheralConnectHandler c ok s))
        = bleCalls (blePeripheralConnectHandler c ok s))
   \<and> (centralConnected s \<longrightarrow>
      centralConnected (blePeripheralConnectHandler c ok s) \<and>
      connectedCentral (blePeripheralConnectHandler c ok s) = connectedCentral s \<and>
      bleCalls (blePeripheralConnectHandler c ok s) = bleCalls s)
   \<and> (\<not> centralConnected s \<longrightarrow>
      \<not> centralConnected (blePeripheralDisconnectHandler c advOk s) \<and>
      connectedCentral (blePeripheralDisconnectHandler c advOk s) = connectedCentral s \<and>
      bleCalls (blePeripheralDisconnectHandler c advOk s) = bleCalls s)"
  by (simp add: blePeripheralConnectHandler_def blePeripheralDisconnectHandler_def
      writeCurrentTime_def writeLocalTimeInfo_def writeRefTimeInfo_def Let_def)

theorem link_event_dispatch_witness:
  "\<not> centralConnected initialWatch
   \<and> centralConnected (blePeripheralConnectHandler ''peer'' True initialWatch)
   \<and> bleCalls (blePeripheralConnectHandler ''peer'' True initialWatch)
       = [WriteValue currentTimeChar [232, 7, 1, 1, 0, 0, 0, 1, 0, 1],
          WriteValue localTimeInfoChar [32, 0],
          WriteValue refTimeInfoChar [4, 254, 0, 0]]
   \<and> centralConnected (initialWatch\<lparr>centralConnected := True\<rparr>)
   \<and> bleCalls (blePeripheralConnectHandler ''other'' True (initialWatch\<lparr>centralConnected := True\<rparr>))
       = []
   \<and> \<not> centralConnected (blePeripheralDisconnectHandler ''peer'' True initialWatch)
   \<and> bleCalls (blePeripheralDisconnectHandler ''peer'' True initialWatch) = []"
  using link_event_dispatch [of initialWatch "''peer''" True "''other''" True True]
    link_event_dispatch [of "initialWatch\<lparr>centralConnected := True\<rparr>" "''other''" True "''other''" True True]
  by (simp add: initialWatch_def timeData_def)

text \<open>
  C10. Ignored link events still drive the indicator: a connect event while connected
  changes neither centralConnected, the recorded central, the clock nor the BLE calls,
  yet it turns the LED on and disables the blink task; a disconnect event while
  disconnected still turns the LED off. Both handlers do this whatever the link state.
\<close>

theorem ignored_events_drive_indicator:
  "(centralConnected s \<longrightarrow>
      ledPin (blePeripheralConnectHandler c ok s) \<and>
      ledState (blePeripheralConnectHandler c ok s) \<and>
      \<not> tLedBlinkEnabled (blePeripheralConnectHandler c ok s) \<and>
      centralConnected (blePeripheralConnectHandler c ok s) \<and>
      connectedCentral (blePeripheralConnectHandler c ok s) = connectedCentral s \<and>
      currentDateTime (blePeripheralConnectHandler c ok s) = currentDateTime s \<and>
      lastTimeUpdateMillis (blePeripheralConnectHandler c ok s) = lastTimeUpdateMillis s \<and>
      bleCalls (blePeripheralConnectHandler c ok s) = bleCalls s)
   \<and> (\<not> centralConnected s \<longrightarrow>
      \<not> ledPin (blePeripheralDisconnectHandler c advOk s) \<and>
      \<not> ledState (blePeripheralDisconnectHandler c advOk s) \<and>
      \<not> centralConnected (blePeripheralDisconnectHandler c advOk s) \<and>
      currentDateTime (blePeripheralDisconnectHandler c advOk s) = currentDateTime s \<and>
      lastTimeUpdateMillis (blePeripheralDisconnectHandler c advOk s) = lastTimeUpdateMillis s \<and>
      bleCalls (blePeripheralDisconnectHandler c advOk s) = bleCalls s)
   \<and> ledPin (blePeripheralConnectHandler c ok s)
   \<and> ledState (blePeripheralConnectHandler c ok s)
   \<and> \<not> tLedBlinkEnabled (blePeripheralConnectHandler c ok s)
   \<and> \<not> ledPin (blePeripheralDisconnectHandler c advOk s)
   \<and> \<not> ledState (blePeripheralDisconnectHandler c advOk s)"
  by (simp add: blePeripheralConnectHandler_def blePeripheralDisconnectHandler_def
      writeCurrentTime_def writeLocalTimeInfo_def writeRefTimeInfo_def Let_def)

theorem ignored_events_drive_indicator_witness:
  "centralConnected (initialWatch\<lparr>centralConnected := True\<rparr>)
   \<and> \<not> ledPin (initialWatch\<lparr>centralConnected := True\<rparr>)
   \<and> tLedBlinkEnabled (initialWatch\<lparr>centralConnected := True\<rparr>)
   \<and> ledPin (blePeripheralConnectHandler ''peer'' True (initialWatch\<lparr>centralConnected := True\<rparr>))
   \<and> ledState (blePeripheralConnectHandler ''peer'' True (initialWatch\<lparr>centralConnected := True\<rparr>))
   \<and> \<not> tLedBlinkEnabled
        (blePeripheralConnectHandler ''peer'' True (initialWatch\<lparr>centralConnected := True\<rparr>))
   \<and> \<not> centralConnected (initialWatch\<lparr>ledPin := True, ledState := True\<rparr>)
   \<and> ledPin (initialWatch\<lparr>ledPin := True, ledState := True\<rparr>)
   \<and> \<not> ledPin
        (blePeripheralDisconnectHandler ''peer'' True (initialWatch\<lparr>ledPin := True, ledState := True\<rparr>))
   \<and> \<not> ledState
        (blePeripheralDisconnectHandler ''peer'' True (initialWatch\<lparr>ledPin := True, ledState := True\<rparr>))"
  using ignored_events_drive_indicator
      [of "initialWatch\<lparr>centralConnected := True\<rparr>" "''peer''" True True]
    ignored_events_drive_indicator
      [of "initialWatch\<lparr>ledPin := True, ledState := True\<rparr>" "''peer''" True True]
  by (simp add: initialWatch_def)

section \<open>Calendar boundaries\<close>

text \<open>
  C2. One second (1000 ms) after 2024-02-28 23:59:59 with day of week 3 the clock shows
  2024-02-29 00:00:00 with day of week 4; one second after 2023-02-28 23:59:59 it shows
  2023-03-01 00:00:00; one second after 2024-12-31 23:59:59 it shows 2025-01-01
  00:00:00. In the last two the day of week, from any value 1..7, moves on by one
  (7 is followed by 1).
\<close>

theorem calendar_boundary_rollovers:
  fixes w :: u8 and l :: u32 and s :: watch
  assumes "1 \<le> w" and "w \<le> 7"
  shows "currentDateTime (updateInternalTime (l + 1000)
           (s\<lparr>currentDateTime := \<lparr>year = 2024, month = 2, day = 28, hour = 23, minute = 59,
                                   second = 59, dayOfWeek = 3\<rparr>,
              lastTimeUpdateMillis := l\<rparr>))
          = \<lparr>year = 2024, month = 2, day = 29, hour = 0, minute = 0, second = 0, dayOfWeek = 4\<rparr>
       \<and> currentDateTime (updateInternalTime (l + 1000)
           (s\<lparr>currentDateTime := \<lparr>year = 2023, month = 2, day = 28, hour = 23, minute = 59,
                                   second = 59, dayOfWeek = w\<rparr>,
              lastTimeUpdateMillis := l\<rparr>))
          = \<lparr>year = 2023, month = 3, day = 1, hour = 0, minute = 0, second = 0,
             dayOfWeek = (if w = 7 then 1 else w + 1)\<rparr>
       \<and> currentDateTime (updateInternalTime (l + 1000)
           (s\<lparr>currentDateTime := \<lparr>year = 2024, month = 12, day = 31, hour = 23, minute = 59,
                                   second = 59, dayOfWeek = w\<rparr>,
              lastTimeUpdateMillis := l\<rparr>))
          = \<lparr>year = 2025, month = 1, day = 1, hour = 0, minute = 0, second = 0,
             dayOfWeek = (if w = 7 then 1 else w + 1)\<rparr>"
proof -
  have dow: "(word_of_int ((uint w - 1 + 1) smod 7 + 1) :: u8) = (if w = 7 then 1 else w + 1)"
    using assms by (rule dayOfWeek_next)
  have leap: "currentDateTime (updateInternalTime (l + 1000)
           (s\<lparr>currentDateTime := \<lparr>year = 2024, month = 2, day = 28, hour = 23, minute = 59,
                                   second = 59, dayOfWeek = 3\<rparr>,
              lastTimeUpdateMillis := l\<rparr>))
          = \<lparr>year = 2024, month = 2, day = 29, hour = 0, minute = 0, second = 0, dayOfWeek = 4\<rparr>"
    by (simp add: updateInternalTime_def rollover_def Let_def carryDays.simps daysInMonth_def
        signed_modulo_int_def)
  have common: "currentDateTime (updateInternalTime (l + 1000)
           (s\<lparr>currentDateTime := \<lparr>year = 2023, month = 2, day = 28, hour = 23, minute = 59,
                                   second = 59, dayOfWeek = w\<rparr>,
              lastTimeUpdateMillis := l\<rparr>))
          = \<lparr>year = 2023, month = 3, day = 1, hour = 0, minute = 0, second = 0,
             dayOfWeek = word_of_int ((uint w - 1 + 1) smod 7 + 1)\<rparr>"
    by (simp add: updateInternalTime_def rollover_def Let_def carryDays.simps daysInMonth_def)
  have yearEnd: "currentDateTime (updateInternalTime (l + 1000)
           (s\<lparr>currentDateTime := \<lparr>year = 2024, month = 12, day = 31, hour = 23, minute = 59,
                                   second = 59, dayOfWeek = w\<rparr>,
              lastTimeUpdateMillis := l\<rparr>))
          = \<lparr>year = 2025, month = 1, day = 1, hour = 0, minute = 0, second = 0,
             dayOfWeek = word_of_int ((uint w - 1 + 1) smod 7 + 1)\<rparr>"
    by (simp add: updateInternalTime_def rollover_def Let_def carryDays.simps daysInMonth_def)
  show ?thesis
    unfolding leap common yearEnd dow by simp
qed

theorem calendar_boundary_rollovers_witness:
  "(1 :: u8) \<le> 2 \<and> (2 :: u8) \<le> 7
   \<and> currentDateTime (updateInternalTime 1000
        (initialWatch\<lparr>currentDateTime := \<lparr>year = 2024, month = 2, day = 28, hour = 23,
                                          minute = 59, second = 59, dayOfWeek = 3\<rparr>\<rparr>))
      = \<lparr>year = 2024, month = 2, day = 29, hour = 0, minute = 0, second = 0, dayOfWeek = 4\<rparr>
   \<and> currentDateTime (updateInternalTime 1000
        (initialWatch\<lparr>currentDateTime := \<lparr>year = 2023, month = 2, day = 28, hour = 23,
                                          minute = 59, second = 59, dayOfWeek = 2\<rparr>\<rparr>))
      = \<lparr>year = 2023, month = 3, day = 1, hour = 0, minute = 0, second = 0, dayOfWeek = 3\<rparr>
   \<and> currentDateTime (updateInternalTime 1000
        (initialWatch\<lparr>currentDateTime := \<lparr>year = 2024, month = 12, day = 31, hour = 23,
                                          minute = 59, second = 59, dayOfWeek = 2\<rparr>\<rparr>))
      = \<lparr>year = 2025, month = 1, day = 1, hour = 0, minute = 0, second = 0, dayOfWeek = 3\<rparr>"
proof -
  have h1: "(1 :: u8) \<le> 2" and h2: "(2 :: u8) \<le> 7"
    by simp_all
  show ?thesis
    using calendar_boundary_rollovers [OF h1 h2, of 0 initialWatch]
    by (simp add: initialWatch_def)
qed

section \<open>Range invariant of the clock\<close>

text \<open>
  C8. At-rest invariant: if month is in 1..12, day in 1..daysInMonth year month, hour
  below 24, minute and second below 60 and day of week in 1..7, then after one call of
  updateInternalTime, with any value of the millisecond counter, the same bounds hold.
\<close>

theorem updateInternalTime_atRest:
  assumes "atRest (currentDateTime s)"
  shows "atRest (currentDateTime (updateInternalTime nowMillis s))"
proof (cases "1000 \<le> nowMillis - lastTimeUpdateMillis s")
  case False
  then show ?thesis
    using assms by (simp add: updateInternalTime_def)
next
  case True
  let ?dt = "currentDateTime s"
  let ?dt1 = "?dt\<lparr>second := ucast ((ucast (second ?dt) :: u32)
                 + (nowMillis - lastTimeUpdateMillis s) div 1000)\<rparr>"
  have "currentDateTime (updateInternalTime nowMillis s) = rollover ?dt1"
    using True by (simp add: updateInternalTime_def Let_def)
  moreover have "atRest (rollover ?dt1)"
    using assms by (intro rollover_atRest) (simp_all add: atRest_def)
  ultimately show ?thesis
    by simp
qed

theorem updateInternalTime_atRest_witness:
  "atRest \<lparr>year = 2024, month = 12, day = 31, hour = 23, minute = 59, second = 59, dayOfWeek = 2\<rparr>
   \<and> atRest (currentDateTime (updateInternalTime 1000
        (initialWatch\<lparr>currentDateTime :=
           \<lparr>year = 2024, month = 12, day = 31, hour = 23, minute = 59, second = 59,
            dayOfWeek = 2\<rparr>\<rparr>)))"
proof -
  have h: "atRest (currentDateTime (initialWatch\<lparr>currentDateTime :=
           \<lparr>year = 2024, month = 12, day = 31, hour = 23, minute = 59, second = 59,
            dayOfWeek = 2\<rparr>\<rparr>))"
    by (simp add: atRest_def daysInMonth_def)
  show ?thesis
    using h updateInternalTime_atRest [OF h, of 1000] by simp
qed

section \<open>Elapsed time in one call and in several\<close>

text \<open>
  C1. Cumulative correctness asks that one call of updateInternalTime after d
  milliseconds gives the same DateTime and lastTimeUpdateMillis as several calls whose
  deltas sum to d. From the power-on state, which is at rest, with d = 256000: the single
  call adds 256 to the 8-bit second, which wraps to 0, so the clock still shows 00:00:00
  while lastTimeUpdateMillis has moved on by 256000; two calls of 128000 each show
  00:04:16. Both leave the same lastTimeUpdateMillis, so the 256 seconds are lost.
  Below the overflow the calls do agree, see \<open>advanceEach_in_range\<close>.
\<close>

theorem updateInternalTime_long_gap:
  "sum_list [128000, 128000 :: nat] = 256000
   \<and> atRest (currentDateTime initialWatch)
   \<and> currentDateTime (advanceEach 0 [256000] initialWatch)
       = \<lparr>year = 2024, month = 1, day = 1, hour = 0, minute = 0, second = 0, dayOfWeek = 1\<rparr>
   \<and> lastTimeUpdateMillis (advanceEach 0 [256000] initialWatch) = 256000
   \<and> currentDateTime (advanceEach 0 [128000, 128000] initialWatch)
       = \<lparr>year = 2024, month = 1, day = 1, hour = 0, minute = 4, second = 16, dayOfWeek = 1\<rparr>
   \<and> lastTimeUpdateMillis (advanceEach 0 [128000, 128000] initialWatch) = 256000"
  by (simp add: initialWatch_def atRest_def daysInMonth_def updateInternalTime_def
      rollover_def Let_def)

end
